theory Spec2Isabelle
  imports Main
begin

section \<open>Promises, errors and JavaScript objects\<close>

text \<open>
  The input manager is asynchronous TypeScript. A promise of type \<open>Promise<void>\<close> is
  modelled by the way it settles. Every device operation is assumed to settle; a device
  whose promise stays pending for ever is outside the model.
\<close>

type_synonym device_id = string
type_synonym inst = nat

datatype Error = Error (message: string)

text \<open>The text a template literal \<open>${e}\<close> produces for an \<open>Error\<close> object.\<close>

definition to_string :: "Error \<Rightarrow> string" where
  "to_string e = ''Error: '' @ message e"

datatype outcome = Resolved | Rejected Error

text \<open>
  \<open>Promise.all\<close> rejects with the first rejection and resolves when every member resolves;
  \<open>Promise.allSettled\<close> always resolves. The list holds the members' outcomes in the order
  in which they settle.
\<close>

fun Promise_all :: "outcome list \<Rightarrow> outcome" where
  "Promise_all [] = Resolved"
| "Promise_all (Resolved # rs) = Promise_all rs"
| "Promise_all (Rejected e # rs) = Rejected e"

definition Promise_allSettled :: "outcome list \<Rightarrow> outcome" where
  "Promise_allSettled rs = Resolved"

text \<open>
  A \<open>Record<string, T>\<close> is a list of its own properties in enumeration order: the keys
  that are array indices first, in ascending numeric order, then the other keys in the
  order of their creation. An array index is a canonical decimal numeral below \<open>2^32 - 1\<close>.
\<close>

definition digit :: "char \<Rightarrow> bool" where
  "digit c \<longleftrightarrow> c \<in> set ''0123456789''"

definition decimal :: "string \<Rightarrow> nat" where
  "decimal s = foldl (\<lambda>n c. 10 * n + (of_char c - 48)) 0 s"

definition array_index :: "string \<Rightarrow> nat option" where
  "array_index s =
     (if s \<noteq> [] \<and> list_all digit s \<and> (length s = 1 \<or> hd s \<noteq> CHR ''0'')
         \<and> decimal s < 4294967295
      then Some (decimal s) else None)"

definition before_index :: "nat \<Rightarrow> string \<times> 'a \<Rightarrow> bool" where
  "before_index n p = (case array_index (fst p) of Some m \<Rightarrow> m < n | None \<Rightarrow> False)"

definition get_prop :: "(string \<times> 'a) list \<Rightarrow> string \<Rightarrow> 'a option" where
  "get_prop obj k = map_of obj k"

definition set_prop :: "string \<Rightarrow> 'a \<Rightarrow> (string \<times> 'a) list \<Rightarrow> (string \<times> 'a) list" where
  "set_prop k v obj =
     (case map_of obj k of
        Some _ \<Rightarrow> map (\<lambda>p. if fst p = k then (k, v) else p) obj
      | None \<Rightarrow>
          (case array_index k of
             None \<Rightarrow> obj @ [(k, v)]
           | Some n \<Rightarrow> takeWhile (before_index n) obj @ (k, v) # dropWhile (before_index n) obj))"

definition delete_prop :: "string \<Rightarrow> (string \<times> 'a) list \<Rightarrow> (string \<times> 'a) list" where
  "delete_prop k obj = filter (\<lambda>p. fst p \<noteq> k) obj"

definition Object_values :: "(string \<times> 'a) list \<Rightarrow> 'a list" where
  "Object_values obj = map snd obj"

definition Object_entries :: "(string \<times> 'a) list \<Rightarrow> (string \<times> 'a) list" where
  "Object_entries obj = obj"

section \<open>The device contract (devices/device.ts)\<close>

record 'v DeviceTriggerEventArgs =
  triggerId :: string
  arguments :: "(string \<times> 'v) list option"
  replacesPrevious :: "bool option"

record ErrorArgs =
  error :: Error

text \<open>
  The abstract class \<open>Device\<close> extends an event emitter with the two events \<open>trigger\<close> and
  \<open>error\<close>; its state is the listeners registered for each, in subscription order. A
  subclass extends the record.
\<close>

record ('t, 'e) Device =
  on_trigger :: "'t list"
  on_error :: "'e list"

definition removeAllListeners :: "('t, 'e, 'z) Device_scheme \<Rightarrow> ('t, 'e, 'z) Device_scheme" where
  "removeAllListeners d = d\<lparr>on_trigger := [], on_error := []\<rparr>"

definition Device_destroy :: "('t, 'e, 'z) Device_scheme \<Rightarrow> outcome \<times> ('t, 'e, 'z) Device_scheme" where
  "Device_destroy d = (Resolved, removeAllListeners d)"

section \<open>The input manager\<close>

subsection \<open>Configuration and integrations\<close>

datatype DeviceType = HTTP | MIDI | STREAM_DECK | X_KEYS

text \<open>
  \<open>DeviceConfig<Type, T>\<close> is \<open>{ type: Type } & T\<close>: a record with the tag, extended by the
  fields of the integration. \<open>Config.devices\<close>, the only field of \<open>Config\<close>, is given in
  the order of \<open>Object.entries\<close>.
\<close>

record SomeDeviceConfig =
  type :: DeviceType

type_synonym 'c Config = "(device_id \<times> 'c SomeDeviceConfig_scheme) list"

text \<open>
  The integrations and the feedback subsystem are external to the manager. What the manager
  observes of a device object is how each of its methods settles, and whether its
  \<open>destroy\<close> detaches the listeners as the base class does.
\<close>

record 'fb DeviceImpl =
  init_result :: outcome
  setFeedback_result :: "string \<Rightarrow> 'fb \<Rightarrow> outcome"
  clearFeedbackAll_result :: outcome
  destroy_result :: outcome
  destroy_detaches :: bool

text \<open>
  A constructor either throws or returns a device. Its second argument is the number of
  devices constructed before, so that the same configuration may give a device that fails
  at one attempt and one that works at the next.
\<close>

record ('c, 'fb) environment =
  HTTPDevice :: "'c SomeDeviceConfig_scheme \<Rightarrow> nat \<Rightarrow> Error + 'fb DeviceImpl"
  MIDIDevice :: "'c SomeDeviceConfig_scheme \<Rightarrow> nat \<Rightarrow> Error + 'fb DeviceImpl"
  StreamDeckDevice :: "'c SomeDeviceConfig_scheme \<Rightarrow> nat \<Rightarrow> Error + 'fb DeviceImpl"
  XKeysDevice :: "'c SomeDeviceConfig_scheme \<Rightarrow> nat \<Rightarrow> Error + 'fb DeviceImpl"
  initBitmapFeedback :: outcome

definition createNewDevice ::
  "('c, 'fb) environment \<Rightarrow> 'c SomeDeviceConfig_scheme \<Rightarrow> nat \<Rightarrow> Error + 'fb DeviceImpl" where
  "createNewDevice env deviceConfig n =
     (case type deviceConfig of
        HTTP \<Rightarrow> HTTPDevice env deviceConfig n
      | MIDI \<Rightarrow> MIDIDevice env deviceConfig n
      | STREAM_DECK \<Rightarrow> StreamDeckDevice env deviceConfig n
      | X_KEYS \<Rightarrow> XKeysDevice env deviceConfig n)"

subsection \<open>State\<close>

record 'v TriggerEventArgs = "'v DeviceTriggerEventArgs" +
  deviceId :: string

text \<open>
  The two listeners \<open>createDevice\<close> installs are closures: the first captures the device
  id, the second the device id and the device object.
\<close>

datatype trigger_listener = ForwardTrigger device_id
datatype error_listener = TeardownOnError device_id inst

record 'fb ManagedDevice = "(trigger_listener, error_listener) Device" +
  impl :: "'fb DeviceImpl"

datatype 'fb call = M_init | M_setFeedback string 'fb | M_clearFeedbackAll | M_destroy

datatype 'fb action =
    Construct device_id
  | Invoke inst "'fb call"
  | Settle inst "'fb call"

text \<open>
  The first three fields are the manager object: the private \<open>#devices\<close> and
  \<open>#refreshInterval\<close>, and the listeners of its own \<open>trigger\<close> event. The others are the
  world it acts on: the device objects by identity, the lines written by \<open>#logger.error\<close>,
  the running interval timers, the payloads delivered to the manager's subscribers, the
  sequence of constructor calls, method calls and settled promises, and the
  error-triggered \<open>destroy()\<close> promises that have not settled yet.
\<close>

record ('v, 'fb) state =
  devices :: "(device_id \<times> inst) list"
  refreshInterval :: "nat option"
  subscribers :: "nat list"
  heap :: "inst \<Rightarrow> 'fb ManagedDevice"
  next_inst :: nat
  logger :: "string list"
  timers :: "nat list"
  next_timer :: nat
  emitted :: "(nat \<times> 'v TriggerEventArgs) list"
  trace :: "'fb action list"
  pending :: "(device_id \<times> inst) list"

definition blank_device :: "'fb ManagedDevice" where
  "blank_device =
     \<lparr>on_trigger = [], on_error = [],
      impl = \<lparr>init_result = Resolved, setFeedback_result = (\<lambda>t f. Resolved),
              clearFeedbackAll_result = Resolved, destroy_result = Resolved,
              destroy_detaches = True\<rparr>\<rparr>"

text \<open>The state after the constructor of \<open>InputManager\<close>; no object is allocated yet.\<close>

definition new_InputManager :: "('v, 'fb) state" where
  "new_InputManager =
     \<lparr>devices = [], refreshInterval = None, subscribers = [], heap = (\<lambda>i. blank_device),
      next_inst = 0, logger = [], timers = [], next_timer = 0, emitted = [], trace = [],
      pending = []\<rparr>"

definition logger_error :: "string \<Rightarrow> ('v, 'fb) state \<Rightarrow> ('v, 'fb) state" where
  "logger_error m st = st\<lparr>logger := logger st @ [m]\<rparr>"

definition setInterval :: "('v, 'fb) state \<Rightarrow> ('v, 'fb) state" where
  "setInterval st =
     st\<lparr>refreshInterval := Some (next_timer st), timers := timers st @ [next_timer st],
        next_timer := Suc (next_timer st)\<rparr>"

definition clearInterval :: "nat \<Rightarrow> ('v, 'fb) state \<Rightarrow> ('v, 'fb) state" where
  "clearInterval h st = st\<lparr>timers := removeAll h (timers st)\<rparr>"

text \<open>A client subscribes to the manager's \<open>trigger\<close> event.\<close>

definition subscribe :: "nat \<Rightarrow> ('v, 'fb) state \<Rightarrow> ('v, 'fb) state" where
  "subscribe s st = st\<lparr>subscribers := subscribers st @ [s]\<rparr>"

subsection \<open>Calling a device\<close>

text \<open>
  A call of a device method runs the synchronous part of the method and returns a
  promise; the promise settles later. \<open>invoke\<close> is the call: for \<open>destroy\<close> it detaches the
  listeners where the integration keeps the base behaviour. \<open>settle\<close> is the moment the
  awaiting code resumes with the outcome.
\<close>

definition result_of :: "'fb DeviceImpl \<Rightarrow> 'fb call \<Rightarrow> outcome" where
  "result_of b m =
     (case m of
        M_init \<Rightarrow> init_result b
      | M_setFeedback t f \<Rightarrow> setFeedback_result b t f
      | M_clearFeedbackAll \<Rightarrow> clearFeedbackAll_result b
      | M_destroy \<Rightarrow> destroy_result b)"

definition sync_part :: "'fb call \<Rightarrow> 'fb ManagedDevice \<Rightarrow> 'fb ManagedDevice" where
  "sync_part m d =
     (case m of
        M_destroy \<Rightarrow> if destroy_detaches (impl d) then snd (Device_destroy d) else d
      | _ \<Rightarrow> d)"

definition invoke :: "inst \<Rightarrow> 'fb call \<Rightarrow> ('v, 'fb) state \<Rightarrow> ('v, 'fb) state" where
  "invoke i m st =
     st\<lparr>heap := (heap st)(i := sync_part m (heap st i)), trace := trace st @ [Invoke i m]\<rparr>"

definition settle :: "inst \<Rightarrow> 'fb call \<Rightarrow> ('v, 'fb) state \<Rightarrow> outcome \<times> ('v, 'fb) state" where
  "settle i m st = (result_of (impl (heap st i)) m, st\<lparr>trace := trace st @ [Settle i m]\<rparr>)"

fun settle_each :: "inst list \<Rightarrow> 'fb call \<Rightarrow> ('v, 'fb) state \<Rightarrow> outcome list \<times> ('v, 'fb) state" where
  "settle_each [] m st = ([], st)"
| "settle_each (i # is) m st =
     (case settle i m st of
        (r, st1) \<Rightarrow> (case settle_each is m st1 of (rs, st2) \<Rightarrow> (r # rs, st2)))"

subsection \<open>createDevice\<close>

text \<open>
  \<open>createDevice\<close> runs synchronously up to \<open>await device.init()\<close>: it constructs the device,
  installs the two listeners, registers the device and calls \<open>init\<close>. Where the
  constructor throws, the \<open>catch\<close> block runs at once with no device. The result is the
  new object when \<open>init\<close> is awaited, and the state.
\<close>

definition createDevice_start ::
  "('c, 'fb) environment \<Rightarrow> device_id \<Rightarrow> 'c SomeDeviceConfig_scheme \<Rightarrow> ('v, 'fb) state
     \<Rightarrow> inst option \<times> ('v, 'fb) state" where
  "createDevice_start env devId deviceConfig st =
     (let i = next_inst st;
          st1 = st\<lparr>next_inst := Suc i, trace := trace st @ [Construct devId]\<rparr>
      in case createNewDevice env deviceConfig i of
           Inl e \<Rightarrow> (None, st1\<lparr>devices := delete_prop devId (devices st1)\<rparr>)
         | Inr b \<Rightarrow>
             (let device = \<lparr>on_trigger = [ForwardTrigger devId],
                            on_error = [TeardownOnError devId i], impl = b\<rparr>;
                  st2 = st1\<lparr>heap := (heap st1)(i := device),
                            devices := set_prop devId i (devices st1)\<rparr>
              in (Some i, invoke i M_init st2)))"

text \<open>
  The rest of \<open>createDevice\<close>, once \<open>init\<close> has settled: nothing more when it resolved; the
  \<open>catch\<close> block when it rejected, where a rejection of the awaited \<open>device.destroy()\<close>
  leaves the block before the \<open>delete\<close>.
\<close>

definition createDevice_settle ::
  "device_id \<Rightarrow> inst \<Rightarrow> ('v, 'fb) state \<Rightarrow> outcome \<times> ('v, 'fb) state" where
  "createDevice_settle devId i st =
     (case settle i M_init st of
        (Resolved, st1) \<Rightarrow> (Resolved, st1)
      | (Rejected e, st1) \<Rightarrow>
          (case settle i M_destroy (invoke i M_destroy st1) of
             (Rejected e', st2) \<Rightarrow> (Rejected e', st2)
           | (Resolved, st2) \<Rightarrow>
               (Resolved, st2\<lparr>devices := delete_prop devId (devices st2)\<rparr>)))"

definition createDevice ::
  "('c, 'fb) environment \<Rightarrow> device_id \<Rightarrow> 'c SomeDeviceConfig_scheme \<Rightarrow> ('v, 'fb) state
     \<Rightarrow> outcome \<times> ('v, 'fb) state" where
  "createDevice env devId deviceConfig st =
     (case createDevice_start env devId deviceConfig st of
        (None, st1) \<Rightarrow> (Resolved, st1)
      | (Some i, st1) \<Rightarrow> createDevice_settle devId i st1)"

fun settle_all :: "(device_id \<times> inst) list \<Rightarrow> ('v, 'fb) state \<Rightarrow> outcome list \<times> ('v, 'fb) state" where
  "settle_all [] st = ([], st)"
| "settle_all ((devId, i) # ps) st =
     (case createDevice_settle devId i st of
        (r, st1) \<Rightarrow> (case settle_all ps st1 of (rs, st2) \<Rightarrow> (r # rs, st2)))"

subsection \<open>init and refreshDevices\<close>

text \<open>
  \<open>entries.map(async ...)\<close> runs every callback up to its first \<open>await\<close>, in the order of the
  entries, before any of the promises is awaited: all devices are constructed and their
  \<open>init\<close> called first, and the pending creations continue afterwards. The creations
  continue here in the order they were started; they write to different keys of
  \<open>#devices\<close>. The state returned is the one reached when all of them have settled.
\<close>

fun init_start ::
  "('c, 'fb) environment \<Rightarrow> 'c Config \<Rightarrow> ('v, 'fb) state
     \<Rightarrow> (device_id \<times> inst) list \<times> ('v, 'fb) state" where
  "init_start env [] st = ([], st)"
| "init_start env ((devId, deviceConfig) # es) st =
     (case createDevice_start env devId deviceConfig st of
        (None, st1) \<Rightarrow> init_start env es st1
      | (Some i, st1) \<Rightarrow>
          (case init_start env es st1 of (ps, st2) \<Rightarrow> ((devId, i) # ps, st2)))"

definition init ::
  "('c, 'fb) environment \<Rightarrow> 'c Config \<Rightarrow> ('v, 'fb) state \<Rightarrow> outcome \<times> ('v, 'fb) state" where
  "init env config st =
     (let st0 = st\<lparr>devices := []\<rparr>
      in case initBitmapFeedback env of
           Rejected e \<Rightarrow> (Rejected e, st0)
         | Resolved \<Rightarrow>
             (case init_start env (Object_entries config) st0 of
                (ps, st1) \<Rightarrow>
                  (case settle_all ps st1 of
                     (rs, st2) \<Rightarrow>
                       (case Promise_all rs of
                          Rejected e \<Rightarrow> (Rejected e, st2)
                        | Resolved \<Rightarrow> (Resolved, setInterval st2)))))"

fun refresh_start ::
  "('c, 'fb) environment \<Rightarrow> 'c Config \<Rightarrow> ('v, 'fb) state
     \<Rightarrow> (device_id \<times> inst) list \<times> ('v, 'fb) state" where
  "refresh_start env [] st = ([], st)"
| "refresh_start env ((devId, deviceConfig) # es) st =
     (if get_prop (devices st) devId \<noteq> None then refresh_start env es st
      else case createDevice_start env devId deviceConfig st of
             (None, st1) \<Rightarrow> refresh_start env es st1
           | (Some i, st1) \<Rightarrow>
               (case refresh_start env es st1 of (ps, st2) \<Rightarrow> ((devId, i) # ps, st2)))"

definition refreshDevices ::
  "('c, 'fb) environment \<Rightarrow> 'c Config \<Rightarrow> ('v, 'fb) state \<Rightarrow> outcome \<times> ('v, 'fb) state" where
  "refreshDevices env config st =
     (case refresh_start env (Object_entries config) st of
        (ps, st1) \<Rightarrow>
          (case settle_all ps st1 of (rs, st2) \<Rightarrow> (Promise_allSettled rs, st2)))"

text \<open>The callback of the interval timer; it runs only while the timer is active.\<close>

definition interval_fires ::
  "nat \<Rightarrow> ('c, 'fb) environment \<Rightarrow> 'c Config \<Rightarrow> ('v, 'fb) state \<Rightarrow> ('v, 'fb) state" where
  "interval_fires h env config st =
     (if h \<in> set (timers st)
      then (case refreshDevices env config st of
              (Rejected e, st1) \<Rightarrow> logger_error (''Could not refresh devices: '' @ to_string e) st1
            | (Resolved, st1) \<Rightarrow> st1)
      else st)"

subsection \<open>destroy, setFeedback, clearFeedbackAll\<close>

text \<open>
  \<open>destroy\<close> calls \<open>destroy\<close> on every registered device before it awaits any of them; the
  assignment that empties \<open>#devices\<close> follows the \<open>await\<close> of \<open>Promise.all\<close>.
\<close>

definition destroy :: "('v, 'fb) state \<Rightarrow> outcome \<times> ('v, 'fb) state" where
  "destroy st =
     (let st1 = st\<lparr>subscribers := []\<rparr>;
          st2 = (case refreshInterval st1 of Some h \<Rightarrow> clearInterval h st1 | None \<Rightarrow> st1);
          ds = Object_values (devices st2);
          st3 = foldl (\<lambda>s device. invoke device M_destroy s) st2 ds
      in case settle_each ds M_destroy st3 of
           (rs, st4) \<Rightarrow>
             (case Promise_all rs of
                Rejected e \<Rightarrow> (Rejected e, st4)
              | Resolved \<Rightarrow> (Resolved, st4\<lparr>devices := []\<rparr>)))"

definition setFeedback ::
  "device_id \<Rightarrow> string \<Rightarrow> 'fb \<Rightarrow> ('v, 'fb) state \<Rightarrow> outcome \<times> ('v, 'fb) state" where
  \<open>setFeedback devId trigId feedback st =
     (case get_prop (devices st) devId of
        None \<Rightarrow> (Rejected (Error (''Could not find device "'' @ devId @ ''"'')), st)
      | Some device \<Rightarrow>
          settle device (M_setFeedback trigId feedback)
            (invoke device (M_setFeedback trigId feedback) st))\<close>

fun clearFeedbackAll_loop :: "inst list \<Rightarrow> ('v, 'fb) state \<Rightarrow> outcome \<times> ('v, 'fb) state" where
  "clearFeedbackAll_loop [] st = (Resolved, st)"
| "clearFeedbackAll_loop (device # ds) st =
     (case settle device M_clearFeedbackAll (invoke device M_clearFeedbackAll st) of
        (Rejected e, st1) \<Rightarrow> (Rejected e, st1)
      | (Resolved, st1) \<Rightarrow> clearFeedbackAll_loop ds st1)"

definition clearFeedbackAll :: "('v, 'fb) state \<Rightarrow> outcome \<times> ('v, 'fb) state" where
  "clearFeedbackAll st = clearFeedbackAll_loop (Object_values (devices st)) st"

subsection \<open>Events of a device\<close>

text \<open>The manager's \<open>this.emit('trigger', payload)\<close> calls its subscribers in order.\<close>

definition emit_trigger :: "'v TriggerEventArgs \<Rightarrow> ('v, 'fb) state \<Rightarrow> ('v, 'fb) state" where
  "emit_trigger payload st =
     st\<lparr>emitted := emitted st @ map (\<lambda>s. (s, payload)) (subscribers st)\<rparr>"

fun run_trigger_listener ::
  "trigger_listener \<Rightarrow> 'v DeviceTriggerEventArgs \<Rightarrow> ('v, 'fb) state \<Rightarrow> ('v, 'fb) state" where
  "run_trigger_listener (ForwardTrigger devId) eventArgs st =
     emit_trigger
       \<lparr>triggerId = triggerId eventArgs, arguments = arguments eventArgs,
        replacesPrevious = replacesPrevious eventArgs, deviceId = devId\<rparr> st"

definition device_emits_trigger ::
  "inst \<Rightarrow> 'v DeviceTriggerEventArgs \<Rightarrow> ('v, 'fb) state \<Rightarrow> ('v, 'fb) state" where
  "device_emits_trigger i eventArgs st =
     foldl (\<lambda>s l. run_trigger_listener l eventArgs s) st (on_trigger (heap st i))"

text \<open>
  The \<open>error\<close> listener logs, calls \<open>destroy\<close> on the device it captured and returns; the
  promise chain \<open>.catch(...).finally(...)\<close> runs when that \<open>destroy\<close> settles.
\<close>

fun run_error_listener :: "error_listener \<Rightarrow> ErrorArgs \<Rightarrow> ('v, 'fb) state \<Rightarrow> ('v, 'fb) state" where
  \<open>run_error_listener (TeardownOnError devId erroredDevice) errorArgs st =
     (let st1 = logger_error (''Error in "'' @ devId @ ''": '' @ to_string (error errorArgs)) st;
          st2 = invoke erroredDevice M_destroy st1
      in st2\<lparr>pending := pending st2 @ [(devId, erroredDevice)]\<rparr>)\<close>

definition device_emits_error :: "inst \<Rightarrow> ErrorArgs \<Rightarrow> ('v, 'fb) state \<Rightarrow> ('v, 'fb) state" where
  "device_emits_error i errorArgs st =
     foldl (\<lambda>s l. run_error_listener l errorArgs s) st (on_error (heap st i))"

text \<open>The \<open>k\<close>-th error-triggered \<open>destroy()\<close> still in flight settles.\<close>

definition teardown_settles :: "nat \<Rightarrow> ('v, 'fb) state \<Rightarrow> ('v, 'fb) state" where
  \<open>teardown_settles k st =
     (if k < length (pending st)
      then (case pending st ! k of
              (devId, erroredDevice) \<Rightarrow>
                (case settle erroredDevice M_destroy st of
                   (r, st1) \<Rightarrow>
                     (let st2 = (case r of
                                   Rejected e \<Rightarrow>
                                     logger_error
                                       (''Error when trying to destroy "'' @ devId @ ''": ''
                                          @ to_string e) st1
                                 | Resolved \<Rightarrow> st1)
                      in st2\<lparr>devices := delete_prop devId (devices st2),
                             pending := take k (pending st2) @ drop (Suc k) (pending st2)\<rparr>)))
      else st)\<close>

section \<open>Observations and invariants used in the statements\<close>

text \<open>The device ids for which a constructor was called, in the order of the calls.\<close>

fun constructions :: "'fb action list \<Rightarrow> device_id list" where
  "constructions [] = []"
| "constructions (Construct d # as) = d # constructions as"
| "constructions (Invoke i m # as) = constructions as"
| "constructions (Settle i m # as) = constructions as"

text \<open>
  Every registered device is an object that has been constructed. The property holds of
  \<open>new_InputManager\<close> and is kept by every operation.
\<close>

definition registry_allocated :: "('v, 'fb) state \<Rightarrow> bool" where
  "registry_allocated st \<longleftrightarrow> (\<forall>(d, i) \<in> set (devices st). i < next_inst st)"

text \<open>
  A device that can be torn down after a failed \<open>init\<close>: its \<open>init\<close> resolves or its
  \<open>destroy\<close> does.
\<close>

definition teardown_safe :: "'fb DeviceImpl \<Rightarrow> bool" where
  "teardown_safe b \<longleftrightarrow> init_result b = Resolved \<or> destroy_result b = Resolved"

text \<open>
  Calls made one at a time: each device is called and its promise awaited before the next
  is called.
\<close>

definition in_turn :: "'fb call \<Rightarrow> inst list \<Rightarrow> 'fb action list" where
  "in_turn m ds = concat (map (\<lambda>i. [Invoke i m, Settle i m]) ds)"

text \<open>
  The devices \<open>clearFeedbackAll\<close> gets to: those of \<open>Object.values(#devices)\<close> up to and
  including the first whose \<open>clearFeedbackAll\<close> rejects.
\<close>

definition clears :: "('v, 'fb) state \<Rightarrow> inst \<Rightarrow> bool" where
  "clears st i \<longleftrightarrow> clearFeedbackAll_result (impl (heap st i)) = Resolved"

definition reached :: "('v, 'fb) state \<Rightarrow> inst list" where
  "reached st =
     (let ds = Object_values (devices st)
      in takeWhile (clears st) ds @ take 1 (dropWhile (clears st) ds))"

section \<open>Example environments\<close>

text \<open>
  A device whose methods all resolve, and one whose \<open>init\<close> rejects. In the scenario of the
  specification the configuration is \<open>{a: midi, b: http}\<close> and the HTTP device cannot
  initialise at first: it is object 1 at \<open>init\<close>, and a later construction works.
\<close>

definition working :: "unit DeviceImpl" where
  "working =
     \<lparr>init_result = Resolved,
      setFeedback_result =
        (\<lambda>t f. if t = ''t9'' then Rejected (Error ''no such control'') else Resolved),
      clearFeedbackAll_result = Resolved, destroy_result = Resolved, destroy_detaches = True\<rparr>"

definition unplugged :: "unit DeviceImpl" where
  "unplugged = working\<lparr>init_result := Rejected (Error ''not connected'')\<rparr>"

definition scenario_config :: "unit Config" where
  "scenario_config = [(''a'', \<lparr>type = MIDI\<rparr>), (''b'', \<lparr>type = HTTP\<rparr>)]"

definition scenario_env :: "(unit, unit) environment" where
  "scenario_env =
     \<lparr>HTTPDevice = (\<lambda>c n. Inr (if n < 2 then unplugged else working)),
      MIDIDevice = (\<lambda>c n. Inr working),
      StreamDeckDevice = (\<lambda>c n. Inr working),
      XKeysDevice = (\<lambda>c n. Inr working),
      initBitmapFeedback = Resolved\<rparr>"

definition scenario_started :: "(unit, unit) state" where
  "scenario_started = snd (init scenario_env scenario_config new_InputManager)"

text \<open>
  A Stream Deck whose \<open>clearFeedbackAll\<close> rejects, registered before an HTTP device.
\<close>

definition mute :: "unit DeviceImpl" where
  "mute = working\<lparr>clearFeedbackAll_result := Rejected (Error ''write failed'')\<rparr>"

definition panel_config :: "unit Config" where
  "panel_config = [(''a'', \<lparr>type = STREAM_DECK\<rparr>), (''b'', \<lparr>type = HTTP\<rparr>)]"

definition panel_env :: "(unit, unit) environment" where
  "panel_env =
     \<lparr>HTTPDevice = (\<lambda>c n. Inr working),
      MIDIDevice = (\<lambda>c n. Inr working),
      StreamDeckDevice = (\<lambda>c n. Inr mute),
      XKeysDevice = (\<lambda>c n. Inr working),
      initBitmapFeedback = Resolved\<rparr>"

definition panel_started :: "(unit, unit) state" where
  "panel_started = snd (init panel_env panel_config new_InputManager)"

text \<open>
  Devices that break the contract of \<open>destroy\<close>: one whose \<open>destroy\<close> rejects, one whose
  \<open>init\<close> rejects as well, and one whose \<open>destroy\<close> resolves and leaves its listeners
  attached.
\<close>

definition jammed :: "unit DeviceImpl" where
  "jammed = working\<lparr>destroy_result := Rejected (Error ''close failed'')\<rparr>"

definition stuck :: "unit DeviceImpl" where
  "stuck = jammed\<lparr>init_result := Rejected (Error ''not connected'')\<rparr>"

definition lingering :: "unit DeviceImpl" where
  "lingering = working\<lparr>destroy_detaches := False\<rparr>"

definition desk_config :: "unit Config" where
  "desk_config = [(''a'', \<lparr>type = X_KEYS\<rparr>), (''b'', \<lparr>type = HTTP\<rparr>)]"

definition desk_env :: "(unit, unit) environment" where
  "desk_env =
     \<lparr>HTTPDevice = (\<lambda>c n. Inr working),
      MIDIDevice = (\<lambda>c n. Inr stuck),
      StreamDeckDevice = (\<lambda>c n. Inr lingering),
      XKeysDevice = (\<lambda>c n. Inr jammed),
      initBitmapFeedback = Resolved\<rparr>"

definition desk_started :: "(unit, unit) state" where
  "desk_started = snd (init desk_env desk_config new_InputManager)"





section \<open>Properties of JavaScript objects and of device creation\<close>

lemma get_prop_set_prop:
  "get_prop (set_prop k v obj) k' = (if k' = k then Some v else get_prop obj k')"
proof (cases "map_of obj k")
  case None
  show ?thesis
  proof (cases "array_index k")
    case N: None
    with None show ?thesis by (simp add: get_prop_def set_prop_def map_add_def split: option.splits)
  next
    case (Some n)
    have "map_of (takeWhile (before_index n) obj @ (k, v) # dropWhile (before_index n) obj) k'
          = (if k' = k then Some v else map_of obj k')"
    proof (cases "k' = k")
      case True
      have "map_of (takeWhile (before_index n) obj) k = None"
      proof -
        from None have "k \<notin> fst ` set obj" by (simp add: map_of_eq_None_iff)
        moreover have "set (takeWhile (before_index n) obj) \<subseteq> set obj"
          by (auto dest: set_takeWhileD)
        ultimately have "k \<notin> fst ` set (takeWhile (before_index n) obj)" by blast
        then show ?thesis by (simp add: map_of_eq_None_iff)
      qed
      then show ?thesis using True by (simp add: map_add_def)
    next
      case False
      have "map_of obj k' = map_of (takeWhile (before_index n) obj @ dropWhile (before_index n) obj) k'"
        by simp
      also have "\<dots> = map_of (takeWhile (before_index n) obj @ (k, v) # dropWhile (before_index n) obj) k'"
        using False by (simp only: map_of_append) (simp add: map_add_def split: option.splits)
      finally show ?thesis using False by simp
    qed
    with None Some show ?thesis by (simp add: get_prop_def set_prop_def)
  qed
next
  case (Some w)
  have other: "map_of (map (\<lambda>p. if fst p = k then (k, v) else p) obj) k' = map_of obj k'"
    if "k' \<noteq> k" using that by (induction obj) auto
  have same: "map_of (map (\<lambda>p. if fst p = k then (k, v) else p) obj) k = Some v"
    if "map_of obj k \<noteq> None" using that by (induction obj) auto
  from Some other same show ?thesis by (simp add: get_prop_def set_prop_def)
qed

lemma get_prop_delete_prop:
  "get_prop (delete_prop k obj) k' = (if k' = k then None else get_prop obj k')"
  by (induction obj) (auto simp: get_prop_def delete_prop_def)

lemma constructions_append: "constructions (xs @ ys) = constructions xs @ constructions ys"
  by (induction xs rule: constructions.induct) auto

lemma createDevice_start_frame:
  assumes "createDevice_start env d c st = (r, st1)"
  shows "next_inst st1 = Suc (next_inst st)"
    and "k \<noteq> d \<Longrightarrow> get_prop (devices st1) k = get_prop (devices st) k"
    and "j \<noteq> next_inst st \<Longrightarrow> heap st1 j = heap st j"
    and "get_prop (devices st1) d = r"
    and "r = Some i \<Longrightarrow> i = next_inst st"
    and "constructions (trace st1) = constructions (trace st) @ [d]"
  using assms
  by (auto simp: createDevice_start_def Let_def invoke_def get_prop_set_prop
      get_prop_delete_prop constructions_append split: sum.splits)

lemma createDevice_settle_frame:
  assumes "createDevice_settle d i st = (r, st1)"
  shows "next_inst st1 = next_inst st"
    and "k \<noteq> d \<Longrightarrow> get_prop (devices st1) k = get_prop (devices st) k"
    and "j \<noteq> i \<Longrightarrow> heap st1 j = heap st j"
    and "constructions (trace st1) = constructions (trace st)"
  using assms
  by (auto simp: createDevice_settle_def Let_def invoke_def settle_def get_prop_delete_prop
      constructions_append split: outcome.splits)

lemma refresh_start_Cons_cases:
  assumes "refresh_start env ((d0, c0) # es) st = (ps, st')"
  obtains (skip) "get_prop (devices st) d0 \<noteq> None" "refresh_start env es st = (ps, st')"
  | (thrown) st1 where "get_prop (devices st) d0 = None"
      "createDevice_start env d0 c0 st = (None, st1)" "refresh_start env es st1 = (ps, st')"
  | (started) i st1 ps' where "get_prop (devices st) d0 = None"
      "createDevice_start env d0 c0 st = (Some i, st1)" "refresh_start env es st1 = (ps', st')"
      "ps = (d0, i) # ps'"
  using assms by (auto split: if_splits option.splits prod.splits)

lemma refresh_start_next_inst:
  "refresh_start env es st = (ps, st') \<Longrightarrow> next_inst st \<le> next_inst st'"
proof (induction es arbitrary: st ps)
  case Nil
  then show ?case by simp
next
  case (Cons e es)
  obtain d0 c0 where e: "e = (d0, c0)" by (cases e)
  from Cons.prems[unfolded e] show ?case
  proof (cases rule: refresh_start_Cons_cases)
    case skip
    then show ?thesis using Cons.IH by blast
  next
    case (thrown st1)
    from Cons.IH[OF thrown(3)] createDevice_start_frame(1)[OF thrown(2)] show ?thesis by simp
  next
    case (started i st1 ps')
    from Cons.IH[OF started(3)] createDevice_start_frame(1)[OF started(2)] show ?thesis by simp
  qed
qed





lemma settle_all_frame:
  assumes "settle_all ps st = (rs, st')"
  shows "next_inst st' = next_inst st"
    and "k \<notin> fst ` set ps \<Longrightarrow> get_prop (devices st') k = get_prop (devices st) k"
    and "j \<notin> snd ` set ps \<Longrightarrow> heap st' j = heap st j"
    and "constructions (trace st') = constructions (trace st)"
  using assms
proof (induction ps arbitrary: st rs)
  case Nil
  { case 1 then show ?case by simp }
  { case 2 then show ?case by simp }
  { case 3 then show ?case by simp }
  { case 4 then show ?case by simp }
next
  case (Cons p ps)
  obtain d0 i0 where p: "p = (d0, i0)" by (cases p)
  { case 1
    then obtain r st1 rs' where a: "createDevice_settle d0 i0 st = (r, st1)"
      and b: "settle_all ps st1 = (rs', st')"
      by (auto simp: p split: prod.splits)
    from Cons.IH(1)[OF b] createDevice_settle_frame(1)[OF a] show ?case by simp }
  { case 2
    then obtain r st1 rs' where a: "createDevice_settle d0 i0 st = (r, st1)"
      and b: "settle_all ps st1 = (rs', st')"
      by (auto simp: p split: prod.splits)
    from 2(1) p have "k \<noteq> d0" "k \<notin> fst ` set ps" by auto
    with Cons.IH(2)[OF _ b] createDevice_settle_frame(2)[OF a] show ?case by simp }
  { case 3
    then obtain r st1 rs' where a: "createDevice_settle d0 i0 st = (r, st1)"
      and b: "settle_all ps st1 = (rs', st')"
      by (auto simp: p split: prod.splits)
    from 3(1) p have "j \<noteq> i0" "j \<notin> snd ` set ps" by auto
    with Cons.IH(3)[OF _ b] createDevice_settle_frame(3)[OF a] show ?case by simp }
  { case 4
    then obtain r st1 rs' where a: "createDevice_settle d0 i0 st = (r, st1)"
      and b: "settle_all ps st1 = (rs', st')"
      by (auto simp: p split: prod.splits)
    from Cons.IH(4)[OF b] createDevice_settle_frame(4)[OF a] show ?case by simp }
qed




lemma refreshDevices_resolves: "fst (refreshDevices env config st) = Resolved"
  by (simp add: refreshDevices_def Promise_allSettled_def split: prod.splits)

section \<open>The registry holds constructed objects only\<close>

text \<open>
  \<open>registry_allocated\<close> holds after the constructor and every operation keeps it: \<open>init\<close>
  establishes it from any state.
\<close>

lemma set_set_prop: "set (set_prop k v obj) \<subseteq> insert (k, v) (set obj)"
proof (cases "map_of obj k")
  case None
  have "set (takeWhile P obj) \<union> set (dropWhile P obj) = set obj" for P :: "string \<times> 'a \<Rightarrow> bool"
    by (metis set_append takeWhile_dropWhile_id)
  with None show ?thesis
    by (auto simp: set_prop_def split: option.splits)
next
  case (Some w)
  then show ?thesis by (auto simp: set_prop_def)
qed

lemma set_delete_prop: "set (delete_prop k obj) \<subseteq> set obj"
  by (auto simp: delete_prop_def)

lemma registry_allocated_new: "registry_allocated new_InputManager"
  by (simp add: registry_allocated_def new_InputManager_def)

lemma registry_allocated_mono:
  assumes "registry_allocated st" and "set (devices st') \<subseteq> set (devices st)"
    and "next_inst st \<le> next_inst st'"
  shows "registry_allocated st'"
  using assms unfolding registry_allocated_def by force

lemma createDevice_start_allocated:
  assumes "registry_allocated st"
  shows "registry_allocated (snd (createDevice_start env devId deviceConfig st))"
proof (cases "createNewDevice env deviceConfig (next_inst st)")
  case (Inl e)
  then have "snd (createDevice_start env devId deviceConfig st)
      = st\<lparr>next_inst := Suc (next_inst st), trace := trace st @ [Construct devId],
           devices := delete_prop devId (devices st)\<rparr>"
    by (simp add: createDevice_start_def Let_def)
  with assms set_delete_prop[of devId "devices st"] show ?thesis
    by (fastforce simp: registry_allocated_def)
next
  case (Inr b)
  then have d: "devices (snd (createDevice_start env devId deviceConfig st))
      = set_prop devId (next_inst st) (devices st)"
    and n: "next_inst (snd (createDevice_start env devId deviceConfig st)) = Suc (next_inst st)"
    by (simp_all add: createDevice_start_def Let_def invoke_def)
  from assms set_set_prop[of devId "next_inst st" "devices st"] show ?thesis
    unfolding registry_allocated_def d n by force
qed

lemma createDevice_settle_allocated:
  assumes "registry_allocated st"
  shows "registry_allocated (snd (createDevice_settle devId i st))"
proof -
  have "set (devices (snd (createDevice_settle devId i st))) \<subseteq> set (devices st)"
    and "next_inst (snd (createDevice_settle devId i st)) = next_inst st"
    using set_delete_prop[of devId "devices st"]
    by (auto simp: createDevice_settle_def settle_def invoke_def split: outcome.splits)
  with assms show ?thesis by (simp add: registry_allocated_mono)
qed

lemma settle_all_allocated:
  "registry_allocated st \<Longrightarrow> registry_allocated (snd (settle_all ps st))"
proof (induction ps arbitrary: st)
  case Nil
  then show ?case by simp
next
  case (Cons p ps)
  obtain d i where p: "p = (d, i)" by (cases p)
  from Cons.IH[OF createDevice_settle_allocated[OF Cons.prems, of d i]] show ?case
    by (auto simp: p split: prod.splits)
qed

lemma init_start_allocated:
  "registry_allocated st \<Longrightarrow> registry_allocated (snd (init_start env es st))"
proof (induction es arbitrary: st)
  case Nil
  then show ?case by simp
next
  case (Cons e es)
  obtain d c where e: "e = (d, c)" by (cases e)
  from Cons.IH[OF createDevice_start_allocated[OF Cons.prems, of env d c]] show ?case
    by (auto simp: e split: prod.splits option.splits)
qed

lemma refresh_start_allocated:
  "registry_allocated st \<Longrightarrow> registry_allocated (snd (refresh_start env es st))"
proof (induction es arbitrary: st)
  case Nil
  then show ?case by simp
next
  case (Cons e es)
  obtain d c where e: "e = (d, c)" by (cases e)
  from Cons.IH[OF createDevice_start_allocated[OF Cons.prems, of env d c]] Cons.IH[OF Cons.prems]
  show ?case
    by (auto simp: e split: prod.splits option.splits)
qed

lemma refreshDevices_allocated:
  assumes "registry_allocated st"
  shows "registry_allocated (snd (refreshDevices env config st))"
proof -
  obtain ps st1 where a: "refresh_start env config st = (ps, st1)"
    by (cases "refresh_start env config st")
  obtain rs st2 where b: "settle_all ps st1 = (rs, st2)"
    by (cases "settle_all ps st1")
  from refresh_start_allocated[OF assms, of env config] a have "registry_allocated st1" by simp
  from settle_all_allocated[OF this, of ps] b have "registry_allocated st2" by simp
  with a b show ?thesis by (simp add: refreshDevices_def Object_entries_def)
qed

lemma init_allocated: "registry_allocated (snd (init env config st))"
proof -
  let ?st0 = "st\<lparr>devices := []\<rparr>"
  have e: "registry_allocated ?st0" by (simp add: registry_allocated_def)
  obtain ps st1 where a: "init_start env config ?st0 = (ps, st1)"
    by (cases "init_start env config ?st0")
  obtain rs st2 where b: "settle_all ps st1 = (rs, st2)"
    by (cases "settle_all ps st1")
  from init_start_allocated[OF e, of env config] a have "registry_allocated st1" by simp
  from settle_all_allocated[OF this, of ps] b have c: "registry_allocated st2" by simp
  then have "registry_allocated (setInterval st2)"
    by (simp add: registry_allocated_def setInterval_def)
  with a b c e show ?thesis
    by (simp add: init_def Let_def Object_entries_def split: outcome.splits)
qed

lemma settle_each_eq:
  "settle_each ds m st
   = (map (\<lambda>i. result_of (impl (heap st i)) m) ds,
      st\<lparr>trace := trace st @ map (\<lambda>i. Settle i m) ds\<rparr>)"
proof (induction ds arbitrary: st)
  case Nil
  show ?case by simp
next
  case (Cons d ds)
  show ?case by (simp add: Cons.IH settle_def)
qed

lemma invoke_all_fields:
  "devices (foldl (\<lambda>s device. invoke device m s) st ds) = devices st"
  "next_inst (foldl (\<lambda>s device. invoke device m s) st ds) = next_inst st"
  "subscribers (foldl (\<lambda>s device. invoke device m s) st ds) = subscribers st"
  "timers (foldl (\<lambda>s device. invoke device m s) st ds) = timers st"
  "refreshInterval (foldl (\<lambda>s device. invoke device m s) st ds) = refreshInterval st"
  "logger (foldl (\<lambda>s device. invoke device m s) st ds) = logger st"
  "trace (foldl (\<lambda>s device. invoke device m s) st ds) = trace st @ map (\<lambda>i. Invoke i m) ds"
  "impl (heap (foldl (\<lambda>s device. invoke device m s) st ds) i) = impl (heap st i)"
proof (induction ds arbitrary: st)
  case Nil
  { case 1 show ?case by simp }
  { case 2 show ?case by simp }
  { case 3 show ?case by simp }
  { case 4 show ?case by simp }
  { case 5 show ?case by simp }
  { case 6 show ?case by simp }
  { case 7 show ?case by simp }
  { case 8 show ?case by simp }
next
  case (Cons d ds)
  have keep: "impl (sync_part m x) = impl x" for x :: "'b ManagedDevice"
    by (cases m) (simp_all add: sync_part_def Device_destroy_def removeAllListeners_def)
  { case 1 show ?case by (simp only: foldl_Cons Cons.IH(1)) (simp add: invoke_def) }
  { case 2 show ?case by (simp only: foldl_Cons Cons.IH(2)) (simp add: invoke_def) }
  { case 3 show ?case by (simp only: foldl_Cons Cons.IH(3)) (simp add: invoke_def) }
  { case 4 show ?case by (simp only: foldl_Cons Cons.IH(4)) (simp add: invoke_def) }
  { case 5 show ?case by (simp only: foldl_Cons Cons.IH(5)) (simp add: invoke_def) }
  { case 6 show ?case by (simp only: foldl_Cons Cons.IH(6)) (simp add: invoke_def) }
  { case 7 show ?case by (simp only: foldl_Cons Cons.IH(7)) (simp add: invoke_def) }
  { case 8 show ?case by (simp only: foldl_Cons Cons.IH(8)) (simp add: invoke_def keep) }
qed

section \<open>Reconciliation\<close>



section \<open>The base device\<close>

text \<open>
  Claim C9. The \<open>destroy()\<close> of the base class \<open>Device\<close> always resolves, leaves the
  device with no listener and changes nothing else of it (the fields a subclass adds
  included); a second call resolves too and leaves the device as the first call left it.
\<close>

theorem Device_destroy_idempotent:
  "fst (Device_destroy d) = Resolved
   \<and> on_trigger (snd (Device_destroy d)) = []
   \<and> on_error (snd (Device_destroy d)) = []
   \<and> Device.more (snd (Device_destroy d)) = Device.more d
   \<and> Device_destroy (snd (Device_destroy d)) = (Resolved, snd (Device_destroy d))"
  by (simp add: Device_destroy_def removeAllListeners_def)

section \<open>Feedback routing\<close>



text \<open>
  The loop of \<open>clearFeedbackAll\<close>: one call and its settlement per device, and no write to
  a device object, so that how each call settles can be read in the state at the start.
\<close>

lemma call_clearFeedbackAll:
  "settle i M_clearFeedbackAll (invoke i M_clearFeedbackAll st)
   = (clearFeedbackAll_result (impl (heap st i)),
      st\<lparr>trace := trace st @ [Invoke i M_clearFeedbackAll, Settle i M_clearFeedbackAll]\<rparr>)"
  by (simp add: settle_def invoke_def sync_part_def result_of_def)

lemma clearFeedbackAll_loop_run:
  "heap st = h \<Longrightarrow>
   clearFeedbackAll_loop ds st
   = ((case dropWhile (\<lambda>i. clearFeedbackAll_result (impl (h i)) = Resolved) ds of
         [] \<Rightarrow> Resolved | i # _ \<Rightarrow> clearFeedbackAll_result (impl (h i))),
      st\<lparr>trace := trace st @ in_turn M_clearFeedbackAll
           (takeWhile (\<lambda>i. clearFeedbackAll_result (impl (h i)) = Resolved) ds
            @ take 1 (dropWhile (\<lambda>i. clearFeedbackAll_result (impl (h i)) = Resolved) ds))\<rparr>)"
proof (induction ds arbitrary: st)
  case Nil
  then show ?case by (simp add: in_turn_def)
next
  case (Cons d ds)
  show ?case
  proof (cases "clearFeedbackAll_result (impl (h d))")
    case Resolved
    let ?st1 = "st\<lparr>trace := trace st @ [Invoke d M_clearFeedbackAll, Settle d M_clearFeedbackAll]\<rparr>"
    from Cons.prems have "heap ?st1 = h" by simp
    from Cons.IH[OF this] Resolved Cons.prems show ?thesis
      by (simp add: call_clearFeedbackAll in_turn_def)
  next
    case (Rejected e)
    with Cons.prems show ?thesis
      by (simp add: call_clearFeedbackAll in_turn_def)
  qed
qed

lemma setFeedback_allocated:
  "registry_allocated st \<Longrightarrow> registry_allocated (snd (setFeedback devId trigId fb st))"
  by (simp add: setFeedback_def settle_def invoke_def registry_allocated_def split: option.splits)

lemma clearFeedbackAll_allocated:
  "registry_allocated st \<Longrightarrow> registry_allocated (snd (clearFeedbackAll st))"
  by (simp add: clearFeedbackAll_def clearFeedbackAll_loop_run[OF refl] registry_allocated_def)

lemma device_emits_trigger_allocated:
  assumes "registry_allocated st"
  shows "registry_allocated (device_emits_trigger i eventArgs st)"
proof -
  have "devices (foldl (\<lambda>s l. run_trigger_listener l eventArgs s) s0 ls) = devices s0
      \<and> next_inst (foldl (\<lambda>s l. run_trigger_listener l eventArgs s) s0 ls) = next_inst s0"
    for s0 :: "('a, 'b) state" and ls
  proof (induction ls arbitrary: s0)
    case Nil
    show ?case by simp
  next
    case (Cons l ls)
    show ?case by (cases l) (simp add: Cons.IH emit_trigger_def)
  qed
  with assms show ?thesis by (simp add: device_emits_trigger_def registry_allocated_def)
qed

text \<open>
  Claim C8, as stated, fails where a call rejects: with the Stream Deck \<open>a\<close> registered
  before \<open>b\<close>, the loop ends at the rejection of \<open>a\<close> and \<open>b\<close> is never called.
\<close>

theorem clearFeedbackAll_stops_at_rejection:
  "Object_values (devices panel_started) = [0, 1]
   \<and> fst (clearFeedbackAll panel_started) = Rejected (Error ''write failed'')
   \<and> trace (snd (clearFeedbackAll panel_started))
       = trace panel_started @ [Invoke 0 M_clearFeedbackAll, Settle 0 M_clearFeedbackAll]
   \<and> Invoke 1 M_clearFeedbackAll \<notin> set (trace (snd (clearFeedbackAll panel_started)))"
  by code_simp

text \<open>
  Claim C8, as amended. \<open>clearFeedbackAll()\<close> calls \<open>clearFeedbackAll\<close> on the registered
  devices one at a time in the order of \<open>Object.values(#devices)\<close>, awaiting each call before
  the next, up to and including the first device whose call rejects; it rejects with that
  rejection and the devices after it are not called. When no call rejects, every
  registered device is called and \<open>clearFeedbackAll()\<close> resolves.
\<close>

theorem clearFeedbackAll_sequential:
  "trace (snd (clearFeedbackAll st)) = trace st @ in_turn M_clearFeedbackAll (reached st)
   \<and> fst (clearFeedbackAll st)
       = (case dropWhile (clears st) (Object_values (devices st)) of
            [] \<Rightarrow> Resolved
          | i # _ \<Rightarrow> clearFeedbackAll_result (impl (heap st i)))
   \<and> (list_all (clears st) (Object_values (devices st)) \<longrightarrow>
         reached st = Object_values (devices st) \<and> fst (clearFeedbackAll st) = Resolved)"
proof -
  have c: "clears st = (\<lambda>i. clearFeedbackAll_result (impl (heap st i)) = Resolved)"
    by (rule ext) (simp add: clears_def)
  have run: "clearFeedbackAll st
     = ((case dropWhile (clears st) (Object_values (devices st)) of
           [] \<Rightarrow> Resolved | i # _ \<Rightarrow> clearFeedbackAll_result (impl (heap st i))),
        st\<lparr>trace := trace st @ in_turn M_clearFeedbackAll (reached st)\<rparr>)"
    unfolding clearFeedbackAll_def reached_def Let_def c
    by (rule clearFeedbackAll_loop_run[OF refl])
  have all: "reached st = Object_values (devices st) \<and> fst (clearFeedbackAll st) = Resolved"
    if "list_all (clears st) (Object_values (devices st))"
  proof -
    have tw: "takeWhile (clears st) (Object_values (devices st)) = Object_values (devices st)"
      using that by (simp add: list_all_iff)
    have dw: "dropWhile (clears st) (Object_values (devices st)) = []"
      using that by (simp add: list_all_iff)
    show ?thesis unfolding run reached_def Let_def tw dw by simp
  qed
  from run all show ?thesis by simp
qed

theorem clearFeedbackAll_sequential_witness:
  "list_all (clears scenario_started) (Object_values (devices scenario_started))
   \<and> fst (clearFeedbackAll scenario_started) = Resolved
   \<and> trace (snd (clearFeedbackAll scenario_started))
       = trace scenario_started @ [Invoke 0 M_clearFeedbackAll, Settle 0 M_clearFeedbackAll]
   \<and> reached panel_started = [0]
   \<and> trace (snd (clearFeedbackAll panel_started))
       = trace panel_started @ [Invoke 0 M_clearFeedbackAll, Settle 0 M_clearFeedbackAll]"
proof -
  have a: "list_all (clears scenario_started) (Object_values (devices scenario_started))"
    by code_simp
  have v: "Object_values (devices scenario_started) = [0]" by code_simp
  have r: "reached panel_started = [0]" by code_simp
  from clearFeedbackAll_sequential[of scenario_started] clearFeedbackAll_sequential[of panel_started]
    a v r
  show ?thesis by (simp add: in_turn_def)
qed

section \<open>Trigger events\<close>

lemma createDevice_start_wires:
  assumes "createDevice_start env devId deviceConfig st = (Some i, st1)"
  shows "get_prop (devices st1) devId = Some i"
    and "on_trigger (heap st1 i) = [ForwardTrigger devId]"
    and "on_error (heap st1 i) = [TeardownOnError devId i]"
  using assms
  by (auto simp: createDevice_start_def Let_def invoke_def sync_part_def get_prop_set_prop
      split: sum.splits)

text \<open>
  Claim C7. \<open>createDevice\<close> registers the device it constructs with a \<open>trigger\<close> listener
  that captures its device id. When a device carrying that listener emits a trigger
  event, the manager delivers to each of its own subscribers, in subscription order, the
  payload of the device with \<open>deviceId\<close> added: \<open>triggerId\<close>, \<open>arguments\<close> and
  \<open>replacesPrevious\<close> are those of the device. Nothing else changes. Device \<open>a\<close> emitting
  \<open>{triggerId: "t1"}\<close> gives \<open>{deviceId: "a", triggerId: "t1"}\<close>.
\<close>

theorem trigger_forwarded:
  "(createDevice_start env devId deviceConfig st0 = (Some i, st1) \<longrightarrow>
      get_prop (devices st1) devId = Some i \<and> on_trigger (heap st1 i) = [ForwardTrigger devId])
   \<and> (on_trigger (heap st i) = [ForwardTrigger devId] \<longrightarrow>
        device_emits_trigger i e st
        = st\<lparr>emitted := emitted st @
              map (\<lambda>s. (s, \<lparr>triggerId = triggerId e, arguments = arguments e,
                              replacesPrevious = replacesPrevious e, deviceId = devId\<rparr>))
                (subscribers st)\<rparr>)"
  using createDevice_start_wires(1,2)[of env devId deviceConfig st0 i st1]
  by (simp add: device_emits_trigger_def emit_trigger_def)

theorem trigger_forwarded_witness:
  "on_trigger (heap (subscribe 7 scenario_started) 0) = [ForwardTrigger ''a'']
   \<and> emitted (device_emits_trigger 0 \<lparr>triggerId = ''t1'', arguments = None, replacesPrevious = None\<rparr>
        (subscribe 7 scenario_started))
     = [(7, \<lparr>triggerId = ''t1'', arguments = None, replacesPrevious = None, deviceId = ''a''\<rparr>)]"
proof -
  have l: "on_trigger (heap (subscribe 7 scenario_started) 0) = [ForwardTrigger ''a'']"
    by code_simp
  have s: "subscribers (subscribe 7 scenario_started) = [7]" by code_simp
  have e: "emitted (subscribe 7 scenario_started) = []" by code_simp
  note T = trigger_forwarded[where st = "subscribe 7 scenario_started" and i = 0
      and devId = "''a''"
      and e = "\<lparr>triggerId = ''t1'', arguments = None, replacesPrevious = None\<rparr>",
      THEN conjunct2, rule_format, OF l]
  show ?thesis by (simp add: T l s e)
qed

section \<open>Error events and teardown\<close>







section \<open>Rejections of a device's destroy\<close>

text \<open>
  What \<open>destroy\<close> does in every case: the subscribers are detached, the timer is cleared,
  \<open>destroy\<close> is called on all registered devices before any of the promises is awaited,
  nothing is logged. Whether the registry is emptied depends on the devices.
\<close>

lemma destroy_always:
  "subscribers (snd (destroy st)) = []"
  "timers (snd (destroy st))
   = (case refreshInterval st of Some h \<Rightarrow> removeAll h (timers st) | None \<Rightarrow> timers st)"
  "trace (snd (destroy st))
   = trace st @ map (\<lambda>i. Invoke i M_destroy) (Object_values (devices st))
       @ map (\<lambda>i. Settle i M_destroy) (Object_values (devices st))"
  "next_inst (snd (destroy st)) = next_inst st"
  "logger (snd (destroy st)) = logger st"
  by (simp_all add: destroy_def Let_def settle_each_eq invoke_all_fields clearInterval_def
      split: outcome.splits option.splits)

lemma destroy_outcome:
  "fst (destroy st)
   = Promise_all (map (\<lambda>i. destroy_result (impl (heap st i))) (Object_values (devices st)))"
  "devices (snd (destroy st))
   = (case fst (destroy st) of Resolved \<Rightarrow> [] | Rejected e \<Rightarrow> devices st)"
  by (simp_all add: destroy_def Let_def settle_each_eq invoke_all_fields clearInterval_def
      result_of_def split: outcome.splits option.splits)

lemma Promise_all_Resolved: "Promise_all rs = Resolved \<longleftrightarrow> (\<forall>r \<in> set rs. r = Resolved)"
  by (induction rs rule: Promise_all.induct) auto

text \<open>
  Where the \<open>destroy\<close> of every registered device resolves, \<open>destroy()\<close> resolves and
  leaves the registry empty, and a second \<open>destroy()\<close> resolves with no call to a device.
\<close>

lemma destroy_when_devices_resolve:
  assumes "\<forall>i \<in> set (Object_values (devices st)). destroy_result (impl (heap st i)) = Resolved"
  shows "fst (destroy st) = Resolved" and "devices (snd (destroy st)) = []"
    and "fst (destroy (snd (destroy st))) = Resolved"
    and "trace (snd (destroy (snd (destroy st)))) = trace (snd (destroy st))"
proof -
  from assms show 1: "fst (destroy st) = Resolved"
    by (simp add: destroy_outcome(1) Promise_all_Resolved)
  then show 2: "devices (snd (destroy st)) = []" by (simp add: destroy_outcome(2))
  from 2 show "fst (destroy (snd (destroy st))) = Resolved"
    by (simp add: destroy_outcome(1) Object_values_def)
  from 2 show "trace (snd (destroy (snd (destroy st)))) = trace (snd (destroy st))"
    by (simp add: destroy_always(3) Object_values_def)
qed

lemma destroy_allocated:
  assumes "registry_allocated st"
  shows "registry_allocated (snd (destroy st))"
  using assms
  by (cases "fst (destroy st)") (simp_all add: registry_allocated_def destroy_outcome(2) destroy_always(4))

lemma teardown_settles_allocated:
  assumes "registry_allocated st"
  shows "registry_allocated (teardown_settles k st)"
proof -
  have "set (devices (teardown_settles k st)) \<subseteq> set (devices st)
      \<and> next_inst (teardown_settles k st) = next_inst st"
    using set_delete_prop[of _ "devices st"]
    by (auto simp: teardown_settles_def settle_def logger_error_def Let_def
        split: prod.splits outcome.splits)
  with assms show ?thesis by (simp add: registry_allocated_mono)
qed

lemma device_emits_error_allocated:
  assumes "registry_allocated st"
  shows "registry_allocated (device_emits_error i errorArgs st)"
proof -
  have "devices (foldl (\<lambda>s l. run_error_listener l errorArgs s) s0 ls) = devices s0
      \<and> next_inst (foldl (\<lambda>s l. run_error_listener l errorArgs s) s0 ls) = next_inst s0"
    for s0 :: "('a, 'b) state" and ls
  proof (induction ls arbitrary: s0)
    case Nil
    show ?case by simp
  next
    case (Cons l ls)
    show ?case by (cases l) (simp add: Cons.IH Let_def invoke_def logger_error_def)
  qed
  with assms show ?thesis by (simp add: device_emits_error_def registry_allocated_def)
qed

lemma subscribe_allocated:
  "registry_allocated st \<Longrightarrow> registry_allocated (subscribe s st)"
  by (simp add: subscribe_def registry_allocated_def)

lemma interval_fires_allocated:
  assumes "registry_allocated st"
  shows "registry_allocated (interval_fires h env config st)"
proof -
  from refreshDevices_resolves[of env config st]
  have "interval_fires h env config st
        = (if h \<in> set (timers st) then snd (refreshDevices env config st) else st)"
    by (cases "refreshDevices env config st") (simp add: interval_fires_def)
  with assms refreshDevices_allocated[OF assms, of env config] show ?thesis by simp
qed

text \<open>
  Where \<open>initBitmapFeedback\<close> resolves, \<open>init()\<close> constructs a device for every configured
  id, whatever fails. Where moreover no device that fails to initialise also fails to be
  destroyed, \<open>init()\<close> resolves.
\<close>

lemma init_start_constructions:
  "constructions (trace (snd (init_start env es st))) = constructions (trace st) @ map fst es"
proof (induction es arbitrary: st)
  case Nil
  show ?case by simp
next
  case (Cons e es)
  obtain d c where e: "e = (d, c)" by (cases e)
  obtain r st1 where a: "createDevice_start env d c st = (r, st1)"
    by (cases "createDevice_start env d c st")
  from Cons.IH[of st1] createDevice_start_frame(6)[OF a] show ?case
    by (cases r) (auto simp: e a split: prod.splits)
qed

lemma init_attempts_all:
  assumes "initBitmapFeedback env = Resolved"
  shows "constructions (trace (snd (init env config st))) = constructions (trace st) @ map fst config"
proof -
  let ?st0 = "st\<lparr>devices := []\<rparr>"
  obtain ps st1 where a: "init_start env config ?st0 = (ps, st1)"
    by (cases "init_start env config ?st0")
  obtain rs st2 where b: "settle_all ps st1 = (rs, st2)"
    by (cases "settle_all ps st1")
  from init_start_constructions[of env config ?st0] a
  have "constructions (trace st1) = constructions (trace st) @ map fst config" by simp
  with settle_all_frame(4)[OF b]
  have "constructions (trace st2) = constructions (trace st) @ map fst config" by simp
  with assms a b show ?thesis
    by (simp add: init_def Let_def Object_entries_def setInterval_def split: outcome.splits)
qed

lemma createDevice_start_impl:
  assumes "createDevice_start env d c st = (r, st1)"
  shows "r = Some i \<Longrightarrow> createNewDevice env c (next_inst st) = Inr (impl (heap st1 i))"
    and "j \<noteq> next_inst st \<Longrightarrow> impl (heap st1 j) = impl (heap st j)"
  using assms
  by (auto simp: createDevice_start_def Let_def invoke_def sync_part_def split: sum.splits)

lemma init_start_Cons_cases:
  assumes "init_start env ((d0, c0) # es) st = (ps, st')"
  obtains (thrown) st1 where "createDevice_start env d0 c0 st = (None, st1)"
      "init_start env es st1 = (ps, st')"
  | (started) i st1 ps' where "createDevice_start env d0 c0 st = (Some i, st1)"
      "init_start env es st1 = (ps', st')" "ps = (d0, i) # ps'"
  using assms by (auto split: option.splits prod.splits)

lemma init_start_next_inst:
  "init_start env es st = (ps, st') \<Longrightarrow> next_inst st \<le> next_inst st'"
proof (induction es arbitrary: st ps)
  case Nil
  then show ?case by simp
next
  case (Cons e es)
  obtain d0 c0 where e: "e = (d0, c0)" by (cases e)
  from Cons.prems[unfolded e] show ?case
  proof (cases rule: init_start_Cons_cases)
    case (thrown st1)
    from Cons.IH[OF thrown(2)] createDevice_start_frame(1)[OF thrown(1)] show ?thesis by simp
  next
    case (started i st1 ps')
    from Cons.IH[OF started(2)] createDevice_start_frame(1)[OF started(1)] show ?thesis by simp
  qed
qed

lemma init_start_impl:
  "init_start env es st = (ps, st') \<Longrightarrow> j < next_inst st
   \<Longrightarrow> impl (heap st' j) = impl (heap st j)"
proof (induction es arbitrary: st ps)
  case Nil
  then show ?case by simp
next
  case (Cons e es)
  obtain d0 c0 where e: "e = (d0, c0)" by (cases e)
  from Cons.prems(1)[unfolded e] show ?case
  proof (cases rule: init_start_Cons_cases)
    case (thrown st1)
    from Cons.prems(2) createDevice_start_frame(1)[OF thrown(1)]
    have "j < next_inst st1" by simp
    from Cons.IH[OF thrown(2) this] createDevice_start_impl(2)[OF thrown(1), of j] Cons.prems(2)
    show ?thesis by simp
  next
    case (started i st1 ps')
    from Cons.prems(2) createDevice_start_frame(1)[OF started(1)]
    have "j < next_inst st1" by simp
    from Cons.IH[OF started(2) this] createDevice_start_impl(2)[OF started(1), of j] Cons.prems(2)
    show ?thesis by simp
  qed
qed

lemma init_start_safe:
  assumes "\<forall>c n b. createNewDevice env c n = Inr b \<longrightarrow> teardown_safe b"
  shows "init_start env es st = (ps, st') \<Longrightarrow> (d, i) \<in> set ps
         \<Longrightarrow> teardown_safe (impl (heap st' i))"
proof (induction es arbitrary: st ps)
  case Nil
  then show ?case by simp
next
  case (Cons e es)
  obtain d0 c0 where e: "e = (d0, c0)" by (cases e)
  from Cons.prems(1)[unfolded e] show ?case
  proof (cases rule: init_start_Cons_cases)
    case (thrown st1)
    from Cons.IH[OF thrown(2) Cons.prems(2)] show ?thesis .
  next
    case (started i0 st1 ps')
    show ?thesis
    proof (cases "(d, i) = (d0, i0)")
      case True
      from createDevice_start_frame(5)[OF started(1) refl] have i0: "i0 = next_inst st" .
      with createDevice_start_frame(1)[OF started(1)] have "i0 < next_inst st1" by simp
      from init_start_impl[OF started(2) this]
      have "impl (heap st' i0) = impl (heap st1 i0)" .
      moreover from createDevice_start_impl(1)[OF started(1) refl] assms
      have "teardown_safe (impl (heap st1 i0))" by blast
      ultimately show ?thesis using True by simp
    next
      case False
      with Cons.prems(2) started(3) have "(d, i) \<in> set ps'" by auto
      from Cons.IH[OF started(2) this] show ?thesis .
    qed
  qed
qed

lemma createDevice_settle_impl:
  "impl (heap (snd (createDevice_settle d i st)) j) = impl (heap st j)"
  "teardown_safe (impl (heap st i)) \<Longrightarrow> fst (createDevice_settle d i st) = Resolved"
  by (auto simp: createDevice_settle_def settle_def invoke_def sync_part_def result_of_def
      teardown_safe_def Device_destroy_def removeAllListeners_def split: outcome.splits)

lemma settle_all_safe:
  "\<forall>(d, i) \<in> set ps. teardown_safe (impl (heap st i))
   \<Longrightarrow> Promise_all (fst (settle_all ps st)) = Resolved"
proof (induction ps arbitrary: st)
  case Nil
  show ?case by simp
next
  case (Cons p ps)
  obtain d i where p: "p = (d, i)" by (cases p)
  obtain r st1 where a: "createDevice_settle d i st = (r, st1)"
    by (cases "createDevice_settle d i st")
  from Cons.prems p createDevice_settle_impl(2)[of st i d] a have r: "r = Resolved" by simp
  from createDevice_settle_impl(1)[of d i st] a
  have "impl (heap st1 j) = impl (heap st j)" for j by simp
  with Cons.prems p have "\<forall>(d, i) \<in> set ps. teardown_safe (impl (heap st1 i))" by simp
  from Cons.IH[OF this] show ?case by (auto simp: p a r split: prod.splits)
qed

lemma init_resolves_when_teardown_resolves:
  assumes "initBitmapFeedback env = Resolved"
    and "\<forall>c n b. createNewDevice env c n = Inr b \<longrightarrow> teardown_safe b"
  shows "fst (init env config st) = Resolved"
proof -
  let ?st0 = "st\<lparr>devices := []\<rparr>"
  obtain ps st1 where a: "init_start env config ?st0 = (ps, st1)"
    by (cases "init_start env config ?st0")
  obtain rs st2 where b: "settle_all ps st1 = (rs, st2)"
    by (cases "settle_all ps st1")
  from init_start_safe[OF assms(2) a]
  have "\<forall>(d, i) \<in> set ps. teardown_safe (impl (heap st1 i))" by auto
  from settle_all_safe[OF this] b have "Promise_all rs = Resolved" by simp
  with assms(1) a b show ?thesis
    by (simp add: init_def Let_def Object_entries_def)
qed

text \<open>
  Claim C1 fails on the code where the \<open>destroy\<close> of a registered device rejects. With the
  X-Keys panel \<open>a\<close>, whose \<open>destroy\<close> rejects, and the HTTP device \<open>b\<close> registered,
  \<open>destroy()\<close> calls \<open>destroy\<close> on both, then rejects with the rejection of \<open>a\<close>: nothing is
  logged and both devices stay in the registry.
\<close>

theorem destroy_rejects_and_keeps_registry:
  "fst (init desk_env desk_config new_InputManager) = Resolved
   \<and> devices desk_started = [(''a'', 0), (''b'', 1)]
   \<and> fst (destroy desk_started) = Rejected (Error ''close failed'')
   \<and> devices (snd (destroy desk_started)) = [(''a'', 0), (''b'', 1)]
   \<and> logger (snd (destroy desk_started)) = []
   \<and> trace (snd (destroy desk_started))
       = trace desk_started
         @ [Invoke 0 M_destroy, Invoke 1 M_destroy, Settle 0 M_destroy, Settle 1 M_destroy]"
  by code_simp

text \<open>
  Claim C2 fails on the code where the \<open>init\<close> of a device rejects and the \<open>destroy\<close> in
  the \<open>catch\<close> block rejects too. With the MIDI device \<open>a\<close> failing in this way, \<open>init()\<close>
  rejects, the interval timer is never started and \<open>a\<close> stays in the registry; the sibling
  \<open>b\<close> is created all the same. \<open>refreshDevices()\<close> in the same situation resolves.
\<close>

theorem init_rejects_after_failed_teardown:
  "fst (init desk_env scenario_config new_InputManager) = Rejected (Error ''close failed'')
   \<and> devices (snd (init desk_env scenario_config new_InputManager)) = [(''a'', 0), (''b'', 1)]
   \<and> refreshInterval (snd (init desk_env scenario_config new_InputManager)) = None
   \<and> timers (snd (init desk_env scenario_config new_InputManager)) = []
   \<and> fst (refreshDevices desk_env scenario_config new_InputManager) = Resolved"
  by code_simp

text \<open>
  Claim C5 fails on the code for the teardown after a failed \<open>init\<close>: the rejection of
  \<open>device.destroy()\<close> leaves the \<open>catch\<close> block of \<open>createDevice\<close>, which rejects with it;
  nothing is logged and the \<open>delete\<close> that follows is not reached, so the device stays
  registered.
\<close>

theorem createDevice_rejects_after_failed_teardown:
  "fst (createDevice desk_env ''a'' \<lparr>type = MIDI\<rparr> new_InputManager)
     = Rejected (Error ''close failed'')
   \<and> devices (snd (createDevice desk_env ''a'' \<lparr>type = MIDI\<rparr> new_InputManager)) = [(''a'', 0)]
   \<and> logger (snd (createDevice desk_env ''a'' \<lparr>type = MIDI\<rparr> new_InputManager)) = []
   \<and> trace (snd (createDevice desk_env ''a'' \<lparr>type = MIDI\<rparr> new_InputManager))
       = [Construct ''a'', Invoke 0 M_init, Settle 0 M_init, Invoke 0 M_destroy, Settle 0 M_destroy]"
  by code_simp

end
